theory Spec2Isabelle
  imports Main "HOL-Library.AList"
begin

section \<open>Python strings and dictionaries\<close>

text \<open>
  Strings are character lists. The parser compares characters only with a handful of
  ASCII delimiters and treats every other character alike, so nothing depends on the
  character set beyond ASCII. An insertion-ordered \<^verbatim>\<open>dict\<close> is an association list:
  \<^const>\<open>AList.update\<close> is \<^verbatim>\<open>d[k] = v\<close> (an existing key keeps its position, a new key
  goes last), \<^const>\<open>map_of\<close> is the lookup and \<^const>\<open>AList.delete\<close> the removal
  done by \<^verbatim>\<open>d.pop(k)\<close>.
\<close>

abbreviation newline :: char where
  "newline \<equiv> CHR 0x0A"

abbreviation dquote :: char where
  "dquote \<equiv> CHR 0x22"

datatype error =
    UnexpectedToken string  \<comment> \<open>\<^verbatim>\<open>ValueError(f"Unexpected token: {repr(token)}")\<close>\<close>
  | EmptySeparator          \<comment> \<open>\<^verbatim>\<open>ValueError("empty separator")\<close> of \<^verbatim>\<open>str.split\<close>\<close>
  | AssertionError
  | AttributeError          \<comment> \<open>a method called on \<^verbatim>\<open>None\<close>\<close>
  | KeyError string

text \<open>\<^verbatim>\<open>sep.join(xs)\<close>\<close>

fun str_join :: "string \<Rightarrow> string list \<Rightarrow> string" where
  "str_join sep [] = []"
| "str_join sep [x] = x"
| "str_join sep (x # y # ys) = x @ sep @ str_join sep (y # ys)"

text \<open>\<^verbatim>\<open>s.replace(c, new)\<close> for a pattern \<^verbatim>\<open>c\<close> of one character.\<close>

fun replace_char :: "char \<Rightarrow> string \<Rightarrow> string \<Rightarrow> string" where
  "replace_char c new [] = []"
| "replace_char c new (x # xs) =
     (if x = c then new @ replace_char c new xs else x # replace_char c new xs)"

definition startswith :: "string \<Rightarrow> string \<Rightarrow> bool" where
  "startswith s p = (take (length p) s = p)"

definition endswith :: "string \<Rightarrow> string \<Rightarrow> bool" where
  "endswith s p = (length p \<le> length s \<and> drop (length s - length p) s = p)"

text \<open>\<^verbatim>\<open>s.lstrip(chars)\<close> and \<^verbatim>\<open>s.rstrip(chars)\<close>\<close>

definition lstrip :: "string \<Rightarrow> string \<Rightarrow> string" where
  "lstrip chars s = dropWhile (\<lambda>c. c \<in> set chars) s"

definition rstrip :: "string \<Rightarrow> string \<Rightarrow> string" where
  "rstrip chars s = rev (dropWhile (\<lambda>c. c \<in> set chars) (rev s))"

text \<open>
  \<^verbatim>\<open>s.split(sep)\<close>: the occurrences of \<^verbatim>\<open>sep\<close> are found from the left and do not
  overlap; an empty separator raises \<^verbatim>\<open>ValueError\<close>. The auxiliary function holds the
  piece read so far, reversed.
\<close>

function split_from :: "string \<Rightarrow> string \<Rightarrow> string \<Rightarrow> string list" where
  "split_from sep acc [] = [rev acc]"
| "split_from sep acc (c # cs) =
     (if sep \<noteq> [] \<and> startswith (c # cs) sep
      then rev acc # split_from sep [] (drop (length sep) (c # cs))
      else split_from sep (c # acc) cs)"
  by pat_completeness auto
termination
  by (relation "measure (\<lambda>(sep, acc, s). length s)") auto

definition str_split :: "string \<Rightarrow> string \<Rightarrow> error + string list" where
  "str_split s sep = (if sep = [] then Inl EmptySeparator else Inr (split_from sep [] s))"

text \<open>
  \<^verbatim>\<open>s.lower()\<close> and \<^verbatim>\<open>s.capitalize()\<close> on ASCII letters; any other character is left as
  it is.
\<close>

definition lower_char :: "char \<Rightarrow> char" where
  "lower_char c =
     (case map_of (zip ''ABCDEFGHIJKLMNOPQRSTUVWXYZ'' ''abcdefghijklmnopqrstuvwxyz'') c of
        None \<Rightarrow> c | Some d \<Rightarrow> d)"

definition upper_char :: "char \<Rightarrow> char" where
  "upper_char c =
     (case map_of (zip ''abcdefghijklmnopqrstuvwxyz'' ''ABCDEFGHIJKLMNOPQRSTUVWXYZ'') c of
        None \<Rightarrow> c | Some d \<Rightarrow> d)"

definition lower :: "string \<Rightarrow> string" where
  "lower s = map lower_char s"

definition capitalize :: "string \<Rightarrow> string" where
  "capitalize s = (case s of [] \<Rightarrow> [] | c # cs \<Rightarrow> upper_char c # map lower_char cs)"

section \<open>Schema records and their rendering\<close>

text \<open>The built-in scalar names, \<^verbatim>\<open>SCALARS\<close>.\<close>

definition SCALARS :: "string set" where
  "SCALARS = {''Int'', ''Float'', ''String'', ''Boolean'', ''ID''}"

text \<open>
  Class \<^verbatim>\<open>GraphQLSchema\<close>: the attribute \<^verbatim>\<open>type\<close> is the field \<open>stype\<close>, and
  \<^verbatim>\<open>fields\<close> is an insertion-ordered dictionary.
\<close>

record GraphQLSchema =
  name :: string
  stype :: string
  sfields :: "(string \<times> string) list"

definition new_schema :: "string \<Rightarrow> GraphQLSchema" where
  "new_schema schema_type = \<lparr>name = [], stype = schema_type, sfields = []\<rparr>"

definition add_field :: "string \<Rightarrow> string \<Rightarrow> GraphQLSchema \<Rightarrow> GraphQLSchema" where
  "add_field fname dtype self = self\<lparr>sfields := AList.update fname dtype (sfields self)\<rparr>"

text \<open>Removal of every \<^verbatim>\<open>!\<close>, \<^verbatim>\<open>[\<close> and \<^verbatim>\<open>]\<close>: the three \<^verbatim>\<open>replace\<close> calls of \<^verbatim>\<open>get_type_id\<close>.\<close>

definition strip_markers :: "string \<Rightarrow> string" where
  "strip_markers dtype =
     replace_char (CHR '']'') [] (replace_char (CHR ''['') [] (replace_char (CHR ''!'') [] dtype))"

definition get_type_id :: "GraphQLSchema \<Rightarrow> string \<Rightarrow> error + string" where
  "get_type_id self field_name =
     (case map_of (sfields self) field_name of
        None \<Rightarrow> Inl (KeyError field_name)
      | Some dtype \<Rightarrow> Inr (strip_markers dtype))"

definition table_to_markdown :: "string list \<Rightarrow> string list list \<Rightarrow> string list option \<Rightarrow> string" where
  "table_to_markdown headers rows column_alignments =
     ''| '' @ str_join '' | '' headers @ '' |\<newline>'' @
     ''| '' @ str_join '' | ''
        (case column_alignments of
           None \<Rightarrow> replicate (length headers) ''---''
         | Some al \<Rightarrow> if al \<noteq> [] then al else replicate (length headers) ''---'') @
     '' |\<newline>'' @
     str_join ''\<newline>'' (map (\<lambda>row. ''| '' @ str_join '' | '' row @ '' |'') rows)"

text \<open>The Markdown of one type expression (the body of the loop over the fields).\<close>

definition dtype_to_markdown :: "string set \<Rightarrow> GraphQLSchema \<Rightarrow> string \<Rightarrow> string \<Rightarrow> error + string" where
  "dtype_to_markdown scalar_names self field dtype =
     (case get_type_id self field of
        Inl e \<Rightarrow> Inl e
      | Inr type_id \<Rightarrow>
          if type_id \<notin> scalar_names then
            (case str_split dtype type_id of
               Inl e \<Rightarrow> Inl e
             | Inr parts \<Rightarrow>
                 let md1 = str_join (''`[<ins>`'' @ type_id @ ''`</ins>](#'' @ lower type_id @ '')`'') parts;
                     md2 = (if startswith dtype type_id then lstrip ''`'' md1 else ''`'' @ md1);
                     md3 = (if endswith dtype type_id then rstrip ''`'' md2 else md2 @ ''`'')
                 in Inr md3)
          else Inr (''`'' @ dtype @ ''`''))"

fun field_rows :: "string set \<Rightarrow> GraphQLSchema \<Rightarrow> (string \<times> string) list \<Rightarrow> error + string list list" where
  "field_rows scalar_names self [] = Inr []"
| "field_rows scalar_names self ((field, dtype) # rest) =
     (case dtype_to_markdown scalar_names self field dtype of
        Inl e \<Rightarrow> Inl e
      | Inr dtype_md \<Rightarrow>
          (case field_rows scalar_names self rest of
             Inl e \<Rightarrow> Inl e
           | Inr rows \<Rightarrow> Inr ([''**`'' @ field @ ''`:** '' @ dtype_md, ''-''] # rows)))"

text \<open>\<^verbatim>\<open>GraphQLSchema.to_markdown(title_prefix, scalars)\<close>; the default of \<^verbatim>\<open>scalars\<close> is \<^verbatim>\<open>None\<close>.\<close>

definition schema_to_markdown :: "GraphQLSchema \<Rightarrow> string \<Rightarrow> string set option \<Rightarrow> error + string" where
  "schema_to_markdown self title_prefix scalars_arg =
     (let scalar_names = (case scalars_arg of None \<Rightarrow> SCALARS | Some sc \<Rightarrow> sc) in
      if stype self = ''scalar'' then
        Inr (title_prefix @ '' '' @ name self @ ''\<newline>\<newline>Datatype class: *'' @ stype self @ ''*'')
      else if stype self = ''enum'' then
        Inr (title_prefix @ '' '' @ name self @ ''\<newline>\<newline>'' @
             ''Datatype class: *'' @ capitalize (stype self) @ ''*\<newline>\<newline>'' @
             table_to_markdown [''Values'']
               (map (\<lambda>field. [''**`'' @ field @ ''`**'']) (map fst (sfields self))) (Some ['':-:'']))
      else
        (case field_rows scalar_names self (sfields self) of
           Inl e \<Rightarrow> Inl e
         | Inr table \<Rightarrow>
             Inr (title_prefix @ '' '' @ name self @ ''\<newline>\<newline>'' @
                  ''Datatype class: *'' @ capitalize (stype self) @ ''*\<newline>\<newline>'' @
                  table_to_markdown [''Field'', ''Description''] table None)))"

section \<open>The parser\<close>

text \<open>
  Class \<^verbatim>\<open>GraphQLSchemaParser\<close>. Schema objects are shared between \<^verbatim>\<open>current_schema\<close>
  and the registry \<^verbatim>\<open>schemas\<close>, so they live in a store: \<open>heap\<close> lists the objects
  created so far, and an object's address is its index there. The attributes
  \<^verbatim>\<open>state\<close> and \<^verbatim>\<open>field_state\<close> only ever hold the string literals below.
\<close>

datatype pstate = SNone | SName | SFields

datatype fstate = FField | FDtype

record parser =
  heap :: "GraphQLSchema list"
  schemas :: "(string \<times> nat) list"
  scalars :: "string set"
  current_schema :: "nat option"
  state :: pstate
  current_type :: string
  field_state :: fstate
  current_token :: string
  current_field :: string
  comment :: bool
  long_comment :: bool
  bracket_level :: int

definition init_parser :: parser where
  "init_parser =
     \<lparr>heap = [], schemas = [], scalars = SCALARS, current_schema = None, state = SNone,
      current_type = [], field_state = FField, current_token = [], current_field = [],
      comment = False, long_comment = False, bracket_level = 0\<rparr>"

definition is_delimiter :: "char \<Rightarrow> bool" where
  "is_delimiter c = (c \<in> {CHR '' '', CHR ''{'', CHR '':'', CHR ''}'', newline, CHR ''=''})"

definition triple_quote :: string where
  "triple_quote = [dquote, dquote, dquote]"

text \<open>Lines 68 to 72: a line end leaves line-comment mode, a \<^verbatim>\<open>#\<close> enters it.\<close>

definition mark_comment :: "char \<Rightarrow> parser \<Rightarrow> parser" where
  "mark_comment character self =
     (if character = newline then self\<lparr>comment := False\<rparr>
      else if character = CHR ''#'' then self\<lparr>comment := True\<rparr>
      else self)"

text \<open>Lines 78 to 86: the character goes to the token.\<close>

definition accumulate :: "char \<Rightarrow> parser \<Rightarrow> parser" where
  "accumulate character self =
     (let s1 = self\<lparr>current_token := current_token self @ [character]\<rparr>;
          s2 = (if character = CHR ''('' then s1\<lparr>bracket_level := bracket_level s1 + 1\<rparr>
                else if character = CHR '')'' then s1\<lparr>bracket_level := bracket_level s1 - 1\<rparr>
                else s1)
      in if current_token s2 = triple_quote
         then s2\<lparr>long_comment := \<not> long_comment s2, current_token := []\<rparr>
         else s2)"

text \<open>\<^verbatim>\<open>self.current_schema.add_field(fname, dtype)\<close> on the object at address \<open>a\<close>.\<close>

definition heap_add_field :: "nat \<Rightarrow> string \<Rightarrow> string \<Rightarrow> parser \<Rightarrow> parser" where
  "heap_add_field a fname dtype self =
     self\<lparr>heap := (heap self)[a := add_field fname dtype (heap self ! a)]\<rparr>"

text \<open>Lines 92 to 102: state \<^verbatim>\<open>"none"\<close>.\<close>

definition dispatch_none :: "char \<Rightarrow> parser \<Rightarrow> error + parser" where
  "dispatch_none character self =
     (if character \<notin> {CHR '' '', newline} then Inl AssertionError
      else if current_token self = [] then Inr self
      else if current_token self \<in> {''type'', ''input'', ''enum'', ''scalar''} then
        Inr (self\<lparr>state := SName,
                  current_type := current_token self,
                  heap := heap self @ [new_schema (current_token self)],
                  current_schema := Some (length (heap self))\<rparr>)
      else Inl (UnexpectedToken (current_token self)))"

text \<open>Lines 104 to 117: state \<^verbatim>\<open>"name"\<close>.\<close>

definition dispatch_name :: "char \<Rightarrow> parser \<Rightarrow> error + parser" where
  "dispatch_name character self =
     (if character \<notin> {CHR '' '', newline, CHR ''{''} then Inl AssertionError
      else case current_schema self of
        None \<Rightarrow> Inl AssertionError
      | Some a \<Rightarrow>
          let s1 = self\<lparr>heap := (heap self)[a := (heap self ! a)\<lparr>name := current_token self\<rparr>]\<rparr> in
          if current_type s1 = ''scalar'' then
            Inr (s1\<lparr>state := SNone,
                    current_type := [],
                    scalars := insert (name (heap s1 ! a)) (scalars s1),
                    schemas := AList.update (name (heap s1 ! a)) a (schemas s1)\<rparr>)
          else Inr (s1\<lparr>state := SFields, field_state := FField\<rparr>))"

text \<open>Lines 119 to 149: state \<^verbatim>\<open>"fields"\<close>.\<close>

definition dispatch_fields :: "char \<Rightarrow> parser \<Rightarrow> error + parser" where
  "dispatch_fields character self =
     (if character \<notin> {CHR '':'', CHR ''{'', CHR ''}'', newline, CHR '' '', CHR ''=''} then Inl AssertionError
      else if current_type self = [] then Inl AssertionError
      else if character = CHR ''}'' then
        (case current_schema self of
           None \<Rightarrow> Inl AssertionError
         | Some a \<Rightarrow>
             Inr (self\<lparr>schemas := AList.update (name (heap self ! a)) a (schemas self),
                       current_schema := None,
                       state := SNone,
                       current_type := [],
                       field_state := FField\<rparr>))
      else if character = CHR ''='' then Inr (self\<lparr>comment := True\<rparr>)
      else if current_token self = [] then Inr self
      else if character \<notin> {CHR '' '', CHR '':'', newline, CHR ''=''} then Inl AssertionError
      else if field_state self = FField \<and> character \<in> {CHR '':'', CHR '' '', newline} then
        (if current_type self = ''enum'' then
           (if character \<notin> {CHR '' '', newline} then Inl AssertionError
            else case current_schema self of
              None \<Rightarrow> Inl AttributeError
            | Some a \<Rightarrow> Inr (heap_add_field a (current_token self) [] self))
         else
           (if character \<notin> {CHR '' '', CHR '':'', newline} then Inl AssertionError
            else Inr (self\<lparr>current_field := current_token self, field_state := FDtype\<rparr>)))
      else if field_state self = FDtype \<and> character \<in> {newline, CHR '' ''} then
        (if current_field self = [] then Inl AssertionError
         else case current_schema self of
           None \<Rightarrow> Inl AttributeError
         | Some a \<Rightarrow>
             Inr ((heap_add_field a (current_field self) (current_token self) self)
                    \<lparr>current_field := [], field_state := FField\<rparr>))
      else Inr self)"

definition dispatch :: "char \<Rightarrow> parser \<Rightarrow> error + parser" where
  "dispatch character self =
     (case state self of
        SNone \<Rightarrow> dispatch_none character self
      | SName \<Rightarrow> dispatch_name character self
      | SFields \<Rightarrow> dispatch_fields character self)"

text \<open>
  \<^verbatim>\<open>read_character\<close>. The method changes the parser in place; an exception leaves the
  parser as it was when it was raised, so an error comes with that parser. Every
  \<^verbatim>\<open>raise\<close> and failing \<^verbatim>\<open>assert\<close> of a dispatch precedes the assignments of its branch.
\<close>

definition read_character :: "char \<Rightarrow> parser \<Rightarrow> (error \<times> parser) + parser" where
  "read_character character self0 =
     (let self = mark_comment character self0
      in if comment self then Inr self
         else if bracket_level self > 0 \<or> \<not> is_delimiter character then Inr (accumulate character self)
         else if long_comment self then Inr (self\<lparr>current_token := []\<rparr>)
         else (case dispatch character self of
                 Inl e \<Rightarrow> Inl (e, self)
               | Inr s' \<Rightarrow> Inr (s'\<lparr>current_token := []\<rparr>)))"

text \<open>Feeding a sequence of characters; the first exception ends the run.\<close>

fun read_characters :: "string \<Rightarrow> parser \<Rightarrow> (error \<times> parser) + parser" where
  "read_characters [] self = Inr self"
| "read_characters (c # cs) self =
     (case read_character c self of
        Inl e \<Rightarrow> Inl e
      | Inr s' \<Rightarrow> read_characters cs s')"

text \<open>
  The lines of a text file as Python's iteration over the file gives them: each line
  keeps its line end, and a last line without one is a line too.
\<close>

fun file_lines :: "string \<Rightarrow> string list" where
  "file_lines [] = []"
| "file_lines (c # cs) =
     (if c = newline then [c] # file_lines cs
      else (case file_lines cs of
              [] \<Rightarrow> [[c]]
            | l # ls \<Rightarrow> (c # l) # ls))"

text \<open>The loops of \<^verbatim>\<open>convert_schema\<close>: each line's characters, then one more line end.\<close>

fun read_lines :: "string list \<Rightarrow> parser \<Rightarrow> (error \<times> parser) + parser" where
  "read_lines [] self = Inr self"
| "read_lines (line # rest) self =
     (case read_characters line self of
        Inl e \<Rightarrow> Inl e
      | Inr s1 \<Rightarrow>
          (case read_character newline s1 of
             Inl e \<Rightarrow> Inl e
           | Inr s2 \<Rightarrow> read_lines rest s2))"

definition parse_document :: "string \<Rightarrow> (error \<times> parser) + parser" where
  "parse_document content = read_lines (file_lines content) init_parser"



section \<open>Document assembly\<close>

text \<open>
  \<^verbatim>\<open>GraphQLSchemaParser.to_markdown\<close>. The elements of the list are evaluated from left
  to right: \<^verbatim>\<open>pop("Query")\<close> and the rendering of its result, the membership test for
  \<^verbatim>\<open>"Mutation"\<close>, then the right operand of the multiplication, which is
  \<^verbatim>\<open>pop("Mutation")\<close> and the rendering of its result whatever the test gave, then the
  remaining records. Each \<^verbatim>\<open>pop\<close> changes the registry, also when a later step raises.
\<close>

definition render_rest :: "parser \<Rightarrow> error + string list" where
  "render_rest self =
     foldr (\<lambda>a acc. case schema_to_markdown (heap self ! a) ''##'' (Some (scalars self)) of
                       Inl e \<Rightarrow> Inl e
                     | Inr md \<Rightarrow> (case acc of Inl e \<Rightarrow> Inl e | Inr mds \<Rightarrow> Inr (md # mds)))
           (map snd (schemas self)) (Inr [])"

definition parser_to_markdown :: "parser \<Rightarrow> (error \<times> parser) + (string \<times> parser)" where
  "parser_to_markdown self =
     (case map_of (schemas self) ''Query'' of
        None \<Rightarrow> Inl (KeyError ''Query'', self)
      | Some q \<Rightarrow>
          let s1 = self\<lparr>schemas := AList.delete ''Query'' (schemas self)\<rparr> in
          (case schema_to_markdown (heap s1 ! q) ''##'' None of
             Inl e \<Rightarrow> Inl (e, s1)
           | Inr query_md \<Rightarrow>
               let has_mutation = (''Mutation'' \<in> set (map fst (schemas s1))) in
               (case map_of (schemas s1) ''Mutation'' of
                  None \<Rightarrow> Inl (KeyError ''Mutation'', s1)
                | Some m \<Rightarrow>
                    let s2 = s1\<lparr>schemas := AList.delete ''Mutation'' (schemas s1)\<rparr> in
                    (case schema_to_markdown (heap s2 ! m) ''##'' None of
                       Inl e \<Rightarrow> Inl (e, s2)
                     | Inr mutation_md \<Rightarrow>
                         (case render_rest s2 of
                            Inl e \<Rightarrow> Inl (e, s2)
                          | Inr rest \<Rightarrow>
                              Inr (str_join ''\<newline>\<newline>''
                                     ([''# Entrypoint Data Types'', query_md] @
                                      concat (replicate (if has_mutation then 1 else 0) [mutation_md]) @
                                      [''# Custom Data Types''] @ rest),
                                   s2))))))"

text \<open>\<^verbatim>\<open>convert_schema\<close> on the text of the schema file.\<close>

definition convert_schema :: "string \<Rightarrow> (error \<times> parser) + string" where
  "convert_schema content =
     (case parse_document content of
        Inl e \<Rightarrow> Inl e
      | Inr self \<Rightarrow>
          (case parser_to_markdown self of
             Inl e \<Rightarrow> Inl e
           | Inr (md, _) \<Rightarrow> Inr md))"

section \<open>Predicates of the statements\<close>

text \<open>
  What the specification asks of a record: a scalar has no fields, and every value of an
  enum is stored with the empty string.
\<close>

definition record_ok :: "GraphQLSchema \<Rightarrow> bool" where
  "record_ok r =
     ((stype r = ''scalar'' \<longrightarrow> sfields r = []) \<and>
      (stype r = ''enum'' \<longrightarrow> (\<forall>v \<in> snd ` set (sfields r). v = [])))"

text \<open>
  The invariant of the parser: every object is well formed; the registry refers to
  existing objects under their own names, each name and each object once; while a
  declaration is being read, \<^verbatim>\<open>current_schema\<close> is an object of the kind
  \<^verbatim>\<open>current_type\<close> that the registry does not refer to; and a scalar never reaches the
  state \<^verbatim>\<open>"fields"\<close>, nor an enum the phase that expects a type.
\<close>

definition parser_inv :: "parser \<Rightarrow> bool" where
  "parser_inv s =
     ((\<forall>r \<in> set (heap s). record_ok r) \<and>
      (\<forall>(n, a) \<in> set (schemas s). a < length (heap s) \<and> name (heap s ! a) = n) \<and>
      distinct (map fst (schemas s)) \<and>
      distinct (map snd (schemas s)) \<and>
      (state s \<noteq> SNone \<longrightarrow>
         current_type s \<noteq> [] \<and>
         (\<exists>a. current_schema s = Some a \<and> a < length (heap s) \<and> a \<notin> snd ` set (schemas s) \<and>
              stype (heap s ! a) = current_type s)) \<and>
      (state s = SFields \<longrightarrow>
         current_type s \<noteq> ''scalar'' \<and> (field_state s = FDtype \<longrightarrow> current_type s \<noteq> ''enum'')))"

text \<open>
  \<open>dispatches c s\<close>: the character \<open>c\<close> reaches the state machine, that is, it passes the
  three early returns of \<^verbatim>\<open>read_character\<close>. \<open>closing c s\<close>: \<open>c\<close> is the delimiter that
  ends the declaration being read, \<^verbatim>\<open>}\<close> in a body and the delimiter after the name of a
  scalar. \<open>closes c s\<close>: both.
\<close>

definition dispatches :: "char \<Rightarrow> parser \<Rightarrow> bool" where
  "dispatches c s =
     (\<not> comment (mark_comment c s) \<and> bracket_level s \<le> 0 \<and> is_delimiter c \<and> \<not> long_comment s)"

definition closing :: "char \<Rightarrow> parser \<Rightarrow> bool" where
  "closing c s =
     (state s = SFields \<and> c = CHR ''}''
      \<or> state s = SName \<and> current_type s = ''scalar'' \<and> c \<in> {CHR '' '', newline, CHR ''{''})"

definition closes :: "char \<Rightarrow> parser \<Rightarrow> bool" where
  "closes c s = (dispatches c s \<and> closing c s)"

text \<open>
  The parser after reading a document that declares \<^verbatim>\<open>Query\<close> and \<^verbatim>\<open>Mutation\<close> with one field
  each.
\<close>

definition query_mutation_registry :: parser where
  "query_mutation_registry =
     init_parser\<lparr>heap := [\<lparr>name = ''Query'', stype = ''type'', sfields = [(''a'', ''Int'')]\<rparr>,
                          \<lparr>name = ''Mutation'', stype = ''type'', sfields = [(''b'', ''Int'')]\<rparr>],
                 schemas := [(''Query'', 0), (''Mutation'', 1)]\<rparr>"

section \<open>Bare type identifiers\<close>

lemma replace_char_Nil_filter: "replace_char c [] s = filter (\<lambda>x. x \<noteq> c) s"
  by (induction s) auto

lemma strip_markers_filter:
  "strip_markers s = filter (\<lambda>x. x \<notin> {CHR ''!'', CHR ''['', CHR '']''}) s"
  by (induction s) (auto simp: strip_markers_def replace_char_Nil_filter)

text \<open>
  Claim C9. A type expression is a bare identifier, free of \<^verbatim>\<open>!\<close>, \<^verbatim>\<open>[\<close> and \<^verbatim>\<open>]\<close>, with any
  string of these three markers before it and any such string after it. For a field
  holding such an expression, \<^verbatim>\<open>get_type_id\<close> returns exactly the bare identifier.
\<close>

theorem get_type_id_roundtrip:
  assumes "set ident \<inter> {CHR ''!'', CHR ''['', CHR '']''} = {}"
    and "set pre \<subseteq> {CHR ''!'', CHR ''['', CHR '']''}"
    and "set post \<subseteq> {CHR ''!'', CHR ''['', CHR '']''}"
    and "map_of (sfields self) field_name = Some (pre @ ident @ post)"
  shows "get_type_id self field_name = Inr ident"
proof -
  have "filter (\<lambda>x. x \<notin> {CHR ''!'', CHR ''['', CHR '']''}) pre = []"
    using assms(2) by (auto simp: filter_empty_conv)
  moreover have "filter (\<lambda>x. x \<notin> {CHR ''!'', CHR ''['', CHR '']''}) post = []"
    using assms(3) by (auto simp: filter_empty_conv)
  moreover have "filter (\<lambda>x. x \<notin> {CHR ''!'', CHR ''['', CHR '']''}) ident = ident"
    using assms(1) by (auto simp: filter_id_conv)
  ultimately have "strip_markers (pre @ ident @ post) = ident"
    by (simp add: strip_markers_filter)
  with assms(4) show ?thesis
    by (simp add: get_type_id_def)
qed

theorem get_type_id_roundtrip_witness:
  "set ''Foo'' \<inter> {CHR ''!'', CHR ''['', CHR '']''} = {}
   \<and> set ''['' \<subseteq> {CHR ''!'', CHR ''['', CHR '']''}
   \<and> set ''!]!'' \<subseteq> {CHR ''!'', CHR ''['', CHR '']''}
   \<and> map_of (sfields \<lparr>name = ''T'', stype = ''type'', sfields = [(''xs'', ''[Foo!]!'')]\<rparr>) ''xs''
       = Some (''['' @ ''Foo'' @ ''!]!'')
   \<and> get_type_id \<lparr>name = ''T'', stype = ''type'', sfields = [(''xs'', ''[Foo!]!'')]\<rparr> ''xs''
       = Inr ''Foo''"
  using get_type_id_roundtrip [of "''Foo''" "''[''" "''!]!''"
      "\<lparr>name = ''T'', stype = ''type'', sfields = [(''xs'', ''[Foo!]!'')]\<rparr>" "''xs''"]
  by simp

section \<open>Unexpected tokens between declarations\<close>

text \<open>
  Claim C8. The parser is between declarations (state \<^verbatim>\<open>"none"\<close>) and a space or a line end
  dispatches the token: no line comment hides the character, no parenthesis is open and
  no block comment is running. If the token is not empty and is none of the four
  declaration keywords, \<^verbatim>\<open>read_character\<close> raises the unexpected-token error, the run over
  any further characters ends with that same error, and the parser it leaves has the
  registry, the objects and the scalar set it had before.
\<close>

theorem unexpected_token_aborts:
  assumes "state self = SNone"
    and "\<not> long_comment self"
    and "bracket_level self \<le> 0"
    and "character = newline \<or> character = CHR '' '' \<and> \<not> comment self"
    and "current_token self \<noteq> []"
    and "current_token self \<notin> {''type'', ''input'', ''enum'', ''scalar''}"
  shows "read_character character self
           = Inl (UnexpectedToken (current_token self), self\<lparr>comment := False\<rparr>)
         \<and> read_characters (character # rest) self
           = Inl (UnexpectedToken (current_token self), self\<lparr>comment := False\<rparr>)
         \<and> schemas (self\<lparr>comment := False\<rparr>) = schemas self
         \<and> heap (self\<lparr>comment := False\<rparr>) = heap self
         \<and> scalars (self\<lparr>comment := False\<rparr>) = scalars self"
proof -
  have "read_character character self
          = Inl (UnexpectedToken (current_token self), self\<lparr>comment := False\<rparr>)"
    using assms
    by (auto simp: read_character_def mark_comment_def is_delimiter_def dispatch_def
        dispatch_none_def)
  then show ?thesis by simp
qed

theorem unexpected_token_aborts_witness:
  "state (init_parser\<lparr>current_token := ''foo''\<rparr>) = SNone
   \<and> \<not> long_comment (init_parser\<lparr>current_token := ''foo''\<rparr>)
   \<and> bracket_level (init_parser\<lparr>current_token := ''foo''\<rparr>) \<le> 0
   \<and> (CHR '' '' = newline \<or> CHR '' '' = CHR '' '' \<and> \<not> comment (init_parser\<lparr>current_token := ''foo''\<rparr>))
   \<and> current_token (init_parser\<lparr>current_token := ''foo''\<rparr>) \<noteq> []
   \<and> current_token (init_parser\<lparr>current_token := ''foo''\<rparr>) \<notin> {''type'', ''input'', ''enum'', ''scalar''}
   \<and> read_characters '' type Query'' (init_parser\<lparr>current_token := ''foo''\<rparr>)
       = Inl (UnexpectedToken ''foo'', init_parser\<lparr>current_token := ''foo''\<rparr>)
   \<and> schemas (init_parser\<lparr>current_token := ''foo''\<rparr>) = []"
  using unexpected_token_aborts [of "init_parser\<lparr>current_token := ''foo''\<rparr>" "CHR '' ''" "''type Query''"]
  by (simp add: init_parser_def)

section \<open>Document assembly on concrete schemas\<close>

text \<open>
  Claim C4. The schema \<^verbatim>\<open>type Query { a: Int }\<close> parses to a registry whose only record is
  \<^verbatim>\<open>Query\<close>, and its assembly raises the lookup error for \<^verbatim>\<open>Mutation\<close>: the right operand
  of the multiplication pops \<^verbatim>\<open>"Mutation"\<close> whether or not the registry has it.
\<close>

theorem query_only_assembly_fails:
  "map_sum fst (\<lambda>self. map fst (schemas self)) (parse_document ''type Query { a: Int }\<newline>'')
     = Inr [''Query'']
   \<and> map_sum fst id (convert_schema ''type Query { a: Int }\<newline>'') = Inl (KeyError ''Mutation'')"
  by code_simp

text \<open>
  Claim C5. The end-to-end schema of the specification, which declares \<^verbatim>\<open>Query\<close> and no
  \<^verbatim>\<open>Mutation\<close>, gives no document at all: the assembly raises the lookup error for
  \<^verbatim>\<open>Mutation\<close>.
\<close>

theorem no_mutation_no_document:
  "map_sum fst id
     (convert_schema
        (''scalar DateTime\<newline>'' @
         ''type Query { user: User }\<newline>'' @
         ''type User { id: ID! name: String createdAt: DateTime }\<newline>''))
   = Inl (KeyError ''Mutation'')"
  by code_simp

text \<open>
  Claim C1. After \<^verbatim>\<open>scalar Foo\<close>, the fields of type \<^verbatim>\<open>Foo\<close> and \<^verbatim>\<open>[Foo!]!\<close> of \<^verbatim>\<open>Query\<close> and
  \<^verbatim>\<open>Mutation\<close> are rendered with a cross-link to \<^verbatim>\<open>#foo\<close>, since these two records are
  rendered with the built-in scalar names only; the same type in the record \<^verbatim>\<open>T\<close>, rendered
  with the parser's scalar set, is plain.
\<close>

theorem declared_scalar_linked_in_entrypoints:
  "map_sum fst id
     (convert_schema
        (''scalar Foo\<newline>'' @
         ''type Query { a: Foo }\<newline>'' @
         ''type Mutation { b: [Foo!]! }\<newline>'' @
         ''type T { c: [Foo!]! d: T }\<newline>''))
   = Inr (''# Entrypoint Data Types\<newline>\<newline>'' @
          ''## Query\<newline>\<newline>Datatype class: *Type*\<newline>\<newline>'' @
          ''| Field | Description |\<newline>| --- | --- |\<newline>'' @
          ''| **`a`:** [<ins>`Foo`</ins>](#foo) | - |\<newline>\<newline>'' @
          ''## Mutation\<newline>\<newline>Datatype class: *Type*\<newline>\<newline>'' @
          ''| Field | Description |\<newline>| --- | --- |\<newline>'' @
          ''| **`b`:** `[`[<ins>`Foo`</ins>](#foo)`!]!` | - |\<newline>\<newline>'' @
          ''# Custom Data Types\<newline>\<newline>'' @
          ''## Foo\<newline>\<newline>Datatype class: *scalar*\<newline>\<newline>'' @
          ''## T\<newline>\<newline>Datatype class: *Type*\<newline>\<newline>'' @
          ''| Field | Description |\<newline>| --- | --- |\<newline>'' @
          ''| **`c`:** `[Foo!]!` | - |\<newline>'' @
          ''| **`d`:** [<ins>`T`</ins>](#t) | - |'')"
  by code_simp

section \<open>The parser invariant\<close>

lemma update_entries:
  "(k', v') \<in> set (AList.update k v al) \<Longrightarrow> (k', v') = (k, v) \<or> (k', v') \<in> set al"
  by (induction al) (auto split: if_splits)

lemma update_values: "snd ` set (AList.update k v al) \<subseteq> insert v (snd ` set al)"
  using update_entries by fastforce

lemma update_distinct_values:
  "v \<notin> snd ` set al \<Longrightarrow> distinct (map snd al) \<Longrightarrow> distinct (map snd (AList.update k v al))"
proof (induction al)
  case Nil
  then show ?case by simp
next
  case (Cons p al)
  show ?case
  proof (cases "fst p = k")
    case True
    with Cons.prems show ?thesis by auto
  next
    case False
    have "snd p \<notin> snd ` set (AList.update k v al)"
      using update_values [of k v al] Cons.prems by auto
    with False Cons show ?thesis by auto
  qed
qed

lemma record_ok_name: "record_ok (r\<lparr>name := n\<rparr>) = record_ok r"
  by (simp add: record_ok_def)

lemma record_ok_new: "record_ok (new_schema t)"
  by (simp add: record_ok_def new_schema_def)

lemma new_schema_sel:
  "stype (new_schema t) = t" "name (new_schema t) = []" "sfields (new_schema t) = []"
  by (simp_all add: new_schema_def)

lemma record_ok_add_enum: "record_ok r \<Longrightarrow> stype r = ''enum'' \<Longrightarrow> record_ok (add_field f [] r)"
  using update_values [of f "[]" "sfields r"]
  by (auto simp: record_ok_def add_field_def)

lemma record_ok_add_other:
  "stype r \<noteq> ''enum'' \<Longrightarrow> stype r \<noteq> ''scalar'' \<Longrightarrow> record_ok (add_field f d r)"
  by (simp add: record_ok_def add_field_def)

lemma heap_update_ok:
  "\<forall>r \<in> set h. record_ok r \<Longrightarrow> record_ok v \<Longrightarrow> \<forall>r \<in> set (h[a := v]). record_ok r"
  using set_update_subset_insert [of h a v] by auto

lemma dispatch_none_inv:
  assumes "parser_inv s" and "state s = SNone" and "dispatch_none c s = Inr s'"
  shows "parser_inv s'"
proof (cases "current_token s = [] \<or> c \<notin> {CHR '' '', newline}")
  case True
  with assms show ?thesis by (auto simp: dispatch_none_def split: if_splits)
next
  case False
  with assms(3) have s': "s' = s\<lparr>state := SName, current_type := current_token s,
      heap := heap s @ [new_schema (current_token s)], current_schema := Some (length (heap s))\<rparr>"
    by (auto simp: dispatch_none_def split: if_splits)
  have reg: "\<forall>(n, a) \<in> set (schemas s). a < length (heap s) \<and> name (heap s ! a) = n"
    using assms(1) by (simp add: parser_inv_def)
  have fresh: "length (heap s) \<notin> snd ` set (schemas s)"
    using reg by fastforce
  have tok: "current_token s \<noteq> []"
    using False by simp
  show ?thesis
    using assms(1) reg fresh tok unfolding s'
    by (auto simp: parser_inv_def record_ok_new nth_append new_schema_sel)
qed

lemma dispatch_name_inv:
  assumes "parser_inv s" and "state s = SName" and "dispatch_name c s = Inr s'"
  shows "parser_inv s'"
proof -
  from assms(1,2) obtain a where a: "current_schema s = Some a" "a < length (heap s)"
      "a \<notin> snd ` set (schemas s)" "stype (heap s ! a) = current_type s"
    by (auto simp: parser_inv_def)
  have ct: "current_type s \<noteq> []"
    using assms(1,2) by (simp add: parser_inv_def)
  define h where "h = (heap s)[a := (heap s ! a)\<lparr>name := current_token s\<rparr>]"
  have ok: "\<forall>r \<in> set h. record_ok r"
    unfolding h_def using assms(1) a(2)
    by (intro heap_update_ok) (auto simp: parser_inv_def record_ok_name)
  have len: "length h = length (heap s)" by (simp add: h_def)
  have ha: "h ! a = (heap s ! a)\<lparr>name := current_token s\<rparr>"
    using a(2) by (simp add: h_def)
  have reg: "\<forall>(n, b) \<in> set (schemas s). b < length h \<and> name (h ! b) = n"
  proof -
    { fix n b assume nb: "(n, b) \<in> set (schemas s)"
      then have "b \<noteq> a" using a(3) by force
      moreover have "b < length (heap s) \<and> name (heap s ! b) = n"
        using assms(1) nb by (auto simp: parser_inv_def)
      ultimately have "b < length h \<and> name (h ! b) = n" by (simp add: h_def) }
    then show ?thesis by auto
  qed
  show ?thesis
  proof (cases "current_type s = ''scalar''")
    case True
    with assms(3) a(1) have s': "s' = s\<lparr>heap := h, state := SNone, current_type := [],
        scalars := insert (current_token s) (scalars s),
        schemas := AList.update (current_token s) a (schemas s)\<rparr>"
      using a(2) by (auto simp: dispatch_name_def h_def Let_def split: if_splits)
    have reg': "\<forall>(n, b) \<in> set (AList.update (current_token s) a (schemas s)).
        b < length h \<and> name (h ! b) = n"
    proof -
      { fix n b assume "(n, b) \<in> set (AList.update (current_token s) a (schemas s))"
        then have "(n, b) = (current_token s, a) \<or> (n, b) \<in> set (schemas s)"
          by (rule update_entries)
        then have "b < length h \<and> name (h ! b) = n"
          using reg ha a(2) len by auto }
      then show ?thesis by auto
    qed
    have "distinct (map snd (AList.update (current_token s) a (schemas s)))"
      using assms(1) a(3) by (intro update_distinct_values) (auto simp: parser_inv_def)
    moreover have "distinct (map fst (AList.update (current_token s) a (schemas s)))"
      using assms(1) by (simp add: parser_inv_def distinct_update)
    ultimately show ?thesis
      using ok reg' unfolding s' by (simp add: parser_inv_def)
  next
    case False
    with assms(3) a(1) have s': "s' = s\<lparr>heap := h, state := SFields, field_state := FField\<rparr>"
      by (auto simp: dispatch_name_def h_def Let_def split: if_splits)
    show ?thesis
      unfolding s' using ok reg assms(1) a False len ha ct
      by (simp add: parser_inv_def)
  qed
qed

lemma add_field_sel: "stype (add_field f d r) = stype r" "name (add_field f d r) = name r"
  by (simp_all add: add_field_def)

lemma heap_add_field_inv:
  assumes "parser_inv s" and "state s = SFields" and "current_schema s = Some a"
    and "d = [] \<and> current_type s = ''enum'' \<or> current_type s \<noteq> ''enum''"
  shows "parser_inv (heap_add_field a f d s)"
proof -
  from assms(1,2,3) have a: "a < length (heap s)" "a \<notin> snd ` set (schemas s)"
      "stype (heap s ! a) = current_type s" "current_type s \<noteq> ''scalar''"
    by (auto simp: parser_inv_def)
  define h where "h = (heap s)[a := add_field f d (heap s ! a)]"
  have "record_ok (heap s ! a)"
    using assms(1) a(1) by (simp add: parser_inv_def)
  then have "record_ok (add_field f d (heap s ! a))"
    using assms(4) a(3,4) by (auto intro: record_ok_add_enum record_ok_add_other)
  then have ok: "\<forall>r \<in> set h. record_ok r"
    unfolding h_def using assms(1) by (intro heap_update_ok) (auto simp: parser_inv_def)
  have reg: "\<forall>(n, b) \<in> set (schemas s). b < length h \<and> name (h ! b) = n"
  proof -
    { fix n b assume nb: "(n, b) \<in> set (schemas s)"
      then have "b \<noteq> a" using a(2) by force
      moreover have "b < length (heap s) \<and> name (heap s ! b) = n"
        using assms(1) nb by (auto simp: parser_inv_def)
      ultimately have "b < length h \<and> name (h ! b) = n" by (simp add: h_def) }
    then show ?thesis by auto
  qed
  have ha: "stype (h ! a) = current_type s" "length h = length (heap s)"
    using a(1,3) by (simp_all add: h_def add_field_sel)
  have s': "heap_add_field a f d s = s\<lparr>heap := h\<rparr>"
    by (simp add: heap_add_field_def h_def)
  show ?thesis
    unfolding s' using ok reg ha assms(1,2,3) a
    by (simp add: parser_inv_def)
qed

lemma parser_inv_field_state:
  "parser_inv s \<Longrightarrow> parser_inv (s\<lparr>current_field := cf, field_state := FField\<rparr>)"
  by (simp add: parser_inv_def)

lemma dispatch_fields_result:
  assumes "dispatch_fields c s = Inr s'" and "current_schema s = Some a"
  shows "s' = s\<lparr>schemas := AList.update (name (heap s ! a)) a (schemas s),
                 current_schema := None, state := SNone, current_type := [],
                 field_state := FField\<rparr> \<and> c = CHR ''}''
       \<or> s' = s\<lparr>comment := True\<rparr> \<and> c \<noteq> CHR ''}''
       \<or> s' = s \<and> c \<noteq> CHR ''}''
       \<or> current_type s = ''enum'' \<and> c \<noteq> CHR ''}''
           \<and> s' = heap_add_field a (current_token s) [] s
       \<or> current_type s \<noteq> ''enum'' \<and> c \<noteq> CHR ''}''
           \<and> s' = s\<lparr>current_field := current_token s, field_state := FDtype\<rparr>
       \<or> field_state s = FDtype \<and> c \<noteq> CHR ''}''
           \<and> s' = (heap_add_field a (current_field s) (current_token s) s)
                     \<lparr>current_field := [], field_state := FField\<rparr>"
proof -
  consider "c = CHR ''}''" | "c = CHR ''=''" | "c = CHR '':''" | "c = CHR '' ''"
    | "c = newline" | "c = CHR ''{''"
    | "c \<notin> {CHR '':'', CHR ''{'', CHR ''}'', newline, CHR '' '', CHR ''=''}"
    by auto
  then show ?thesis
  proof cases
    case 1
    with assms show ?thesis by (simp add: dispatch_fields_def split: if_splits)
  next
    case 2
    with assms show ?thesis by (simp add: dispatch_fields_def split: if_splits)
  next
    case 3
    with assms show ?thesis by (simp add: dispatch_fields_def split: if_splits)
  next
    case 4
    with assms show ?thesis by (simp add: dispatch_fields_def split: if_splits)
  next
    case 5
    with assms show ?thesis by (simp add: dispatch_fields_def split: if_splits)
  next
    case 6
    with assms show ?thesis by (simp add: dispatch_fields_def split: if_splits)
  next
    case 7
    with assms show ?thesis by (simp add: dispatch_fields_def)
  qed
qed

lemma dispatch_fields_inv:
  assumes "parser_inv s" and "state s = SFields" and "dispatch_fields c s = Inr s'"
  shows "parser_inv s'"
proof -
  from assms(1,2) obtain a where a: "current_schema s = Some a" "a < length (heap s)"
      "a \<notin> snd ` set (schemas s)" "stype (heap s ! a) = current_type s"
    by (auto simp: parser_inv_def)
  consider (close) "s' = s\<lparr>schemas := AList.update (name (heap s ! a)) a (schemas s),
                       current_schema := None, state := SNone, current_type := [],
                       field_state := FField\<rparr>"
    | (skip) "s' = s\<lparr>comment := True\<rparr>"
    | (same) "s' = s"
    | (enum) "current_type s = ''enum''" "s' = heap_add_field a (current_token s) [] s"
    | (fname) "current_type s \<noteq> ''enum''"
        "s' = s\<lparr>current_field := current_token s, field_state := FDtype\<rparr>"
    | (dtype) "field_state s = FDtype"
        "s' = (heap_add_field a (current_field s) (current_token s) s)
                \<lparr>current_field := [], field_state := FField\<rparr>"
    using dispatch_fields_result [OF assms(3) a(1)] by blast
  then show ?thesis
  proof cases
    case close
    have reg': "\<forall>(n, b) \<in> set (AList.update (name (heap s ! a)) a (schemas s)).
        b < length (heap s) \<and> name (heap s ! b) = n"
    proof -
      { fix n b assume "(n, b) \<in> set (AList.update (name (heap s ! a)) a (schemas s))"
        then have "(n, b) = (name (heap s ! a), a) \<or> (n, b) \<in> set (schemas s)"
          by (rule update_entries)
        then have "b < length (heap s) \<and> name (heap s ! b) = n"
          using assms(1) a(2) by (auto simp: parser_inv_def) }
      then show ?thesis by auto
    qed
    have "distinct (map snd (AList.update (name (heap s ! a)) a (schemas s)))"
      using assms(1) a(3) by (intro update_distinct_values) (auto simp: parser_inv_def)
    moreover have "distinct (map fst (AList.update (name (heap s ! a)) a (schemas s)))"
      using assms(1) by (simp add: parser_inv_def distinct_update)
    ultimately show ?thesis
      using reg' assms(1) unfolding close by (simp add: parser_inv_def)
  next
    case skip
    with assms(1) show ?thesis by (simp add: parser_inv_def)
  next
    case same
    with assms(1) show ?thesis by simp
  next
    case enum
    with assms(1,2) a(1) show ?thesis by (simp add: heap_add_field_inv)
  next
    case fname
    with assms(1,2) show ?thesis by (simp add: parser_inv_def)
  next
    case dtype
    have "current_type s \<noteq> ''enum''"
      using assms(1,2) dtype(1) by (simp add: parser_inv_def)
    then have "parser_inv (heap_add_field a (current_field s) (current_token s) s)"
      using assms(1,2) a(1) by (simp add: heap_add_field_inv)
    then show ?thesis
      unfolding dtype(2) by (rule parser_inv_field_state)
  qed
qed

lemma mark_comment_sel:
  "heap (mark_comment c s) = heap s" "schemas (mark_comment c s) = schemas s"
  "scalars (mark_comment c s) = scalars s" "current_schema (mark_comment c s) = current_schema s"
  "state (mark_comment c s) = state s" "current_type (mark_comment c s) = current_type s"
  "field_state (mark_comment c s) = field_state s"
  "current_token (mark_comment c s) = current_token s"
  "current_field (mark_comment c s) = current_field s"
  "long_comment (mark_comment c s) = long_comment s"
  "bracket_level (mark_comment c s) = bracket_level s"
  by (simp_all add: mark_comment_def)

lemma accumulate_sel:
  "heap (accumulate c s) = heap s" "schemas (accumulate c s) = schemas s"
  "scalars (accumulate c s) = scalars s" "current_schema (accumulate c s) = current_schema s"
  "state (accumulate c s) = state s" "current_type (accumulate c s) = current_type s"
  "field_state (accumulate c s) = field_state s"
  "current_field (accumulate c s) = current_field s"
  "comment (accumulate c s) = comment s"
  by (simp_all add: accumulate_def Let_def)

lemma read_character_dispatch:
  "dispatches c s \<Longrightarrow>
   read_character c s =
     (case dispatch c (mark_comment c s) of
        Inl e \<Rightarrow> Inl (e, mark_comment c s)
      | Inr s' \<Rightarrow> Inr (s'\<lparr>current_token := []\<rparr>))"
  by (simp add: read_character_def dispatches_def Let_def mark_comment_sel)

lemma read_character_scan:
  assumes "\<not> dispatches c s"
  shows "read_character c s = Inr (mark_comment c s)
       \<or> read_character c s = Inr (accumulate c (mark_comment c s))
       \<or> read_character c s = Inr ((mark_comment c s)\<lparr>current_token := []\<rparr>)"
  using assms
  by (auto simp: read_character_def dispatches_def Let_def mark_comment_sel not_le)

lemma dispatch_inv: "parser_inv s \<Longrightarrow> dispatch c s = Inr s' \<Longrightarrow> parser_inv s'"
  unfolding dispatch_def
  by (cases "state s") (auto intro: dispatch_none_inv dispatch_name_inv dispatch_fields_inv)

lemma parser_inv_scan:
  "parser_inv (mark_comment c s) = parser_inv s"
  "parser_inv (s\<lparr>current_token := t\<rparr>) = parser_inv s"
  "parser_inv (accumulate c s) = parser_inv s"
  by (simp_all add: parser_inv_def accumulate_sel mark_comment_sel)

lemma read_character_inv:
  assumes "parser_inv s"
  shows "read_character c s = Inr s' \<Longrightarrow> parser_inv s'"
    and "read_character c s = Inl (e, s') \<Longrightarrow> parser_inv s'"
proof -
  have inv0: "parser_inv (mark_comment c s)"
    using assms by (simp add: parser_inv_scan)
  show "read_character c s = Inr s' \<Longrightarrow> parser_inv s'"
  proof (cases "dispatches c s")
    case True
    assume "read_character c s = Inr s'"
    then obtain s1 where "dispatch c (mark_comment c s) = Inr s1" "s' = s1\<lparr>current_token := []\<rparr>"
      using True by (auto simp: read_character_dispatch split: sum.splits)
    then show ?thesis
      using dispatch_inv [OF inv0] by (simp add: parser_inv_scan)
  next
    case False
    assume "read_character c s = Inr s'"
    then show ?thesis
      using read_character_scan [OF False] inv0 by (auto simp: parser_inv_scan)
  qed
  show "read_character c s = Inl (e, s') \<Longrightarrow> parser_inv s'"
  proof (cases "dispatches c s")
    case True
    assume "read_character c s = Inl (e, s')"
    then have "s' = mark_comment c s"
      using True by (auto simp: read_character_dispatch split: sum.splits)
    then show ?thesis using inv0 by simp
  next
    case False
    assume "read_character c s = Inl (e, s')"
    then show ?thesis
      using read_character_scan [OF False] by auto
  qed
qed

lemma read_characters_inv:
  "parser_inv s \<Longrightarrow> read_characters cs s = Inr s' \<or> read_characters cs s = Inl (e, s')
     \<Longrightarrow> parser_inv s'"
proof (induction cs arbitrary: s)
  case Nil
  then show ?case by simp
next
  case (Cons c cs)
  show ?case
  proof (cases "read_character c s")
    case (Inl p)
    with Cons.prems show ?thesis
      using read_character_inv(2) [of s c "fst p" "snd p"] by auto
  next
    case (Inr s1)
    then have "parser_inv s1"
      using Cons.prems(1) read_character_inv(1) by blast
    with Cons.IH [of s1] Cons.prems(2) Inr show ?thesis by simp
  qed
qed

lemma init_parser_inv: "parser_inv init_parser"
  by (simp add: parser_inv_def init_parser_def)

lemma read_characters_append:
  "read_characters (xs @ ys) s =
     (case read_characters xs s of Inl e \<Rightarrow> Inl e | Inr s' \<Rightarrow> read_characters ys s')"
  by (induction xs arbitrary: s) (auto split: sum.splits)

lemma read_lines_flat:
  "read_lines ls s = read_characters (concat (map (\<lambda>l. l @ [newline]) ls)) s"
  by (induction ls arbitrary: s) (auto simp: read_characters_append split: sum.splits)

lemma parse_document_inv:
  "parse_document content = Inr s \<or> parse_document content = Inl (e, s) \<Longrightarrow> parser_inv s"
  unfolding parse_document_def read_lines_flat
  using read_characters_inv [OF init_parser_inv] by blast

lemma update_member: "(k, v) \<in> set (AList.update k v al)"
  by (induction al) auto

lemma update_changes: "v \<notin> snd ` set al \<Longrightarrow> AList.update k v al \<noteq> al"
  using update_member [of k v al] by force

lemma dispatch_name_result:
  assumes "dispatch_name c s = Inr s'" and "current_schema s = Some a"
  shows "c \<in> {CHR '' '', newline, CHR ''{''} \<and>
     (current_type s = ''scalar'' \<and>
        s' = s\<lparr>heap := (heap s)[a := (heap s ! a)\<lparr>name := current_token s\<rparr>],
               state := SNone, current_type := [],
               scalars := insert (name ((heap s)[a := (heap s ! a)\<lparr>name := current_token s\<rparr>] ! a)) (scalars s),
               schemas := AList.update (name ((heap s)[a := (heap s ! a)\<lparr>name := current_token s\<rparr>] ! a)) a (schemas s)\<rparr>
      \<or> current_type s \<noteq> ''scalar'' \<and>
        s' = s\<lparr>heap := (heap s)[a := (heap s ! a)\<lparr>name := current_token s\<rparr>],
               state := SFields, field_state := FField\<rparr>)"
  using assms by (auto simp: dispatch_name_def Let_def split: if_splits)

lemma dispatch_none_result:
  assumes "dispatch_none c s = Inr s'"
  shows "s' = s \<or> s' = s\<lparr>state := SName, current_type := current_token s,
      heap := heap s @ [new_schema (current_token s)], current_schema := Some (length (heap s))\<rparr>"
  using assms by (auto simp: dispatch_none_def split: if_splits)

lemma dispatch_effect:
  assumes "parser_inv s" and "dispatch c s = Inr s1"
  shows "(\<forall>(n, a) \<in> set (schemas s). heap s1 ! a = heap s ! a) \<and>
         (if closing c s
          then \<exists>a. current_schema s = Some a \<and>
                 schemas s1 = AList.update (name (heap s1 ! a)) a (schemas s)
          else schemas s1 = schemas s)"
proof (cases "state s")
  case SNone
  have reg: "\<forall>(n, a) \<in> set (schemas s). a < length (heap s)"
    using assms(1) by (auto simp: parser_inv_def)
  from assms(2) SNone have "dispatch_none c s = Inr s1" by (simp add: dispatch_def)
  from dispatch_none_result [OF this] show ?thesis
    using reg SNone by (auto simp: closing_def nth_append)
next
  case SName
  from assms(1) SName obtain a where a: "current_schema s = Some a" "a < length (heap s)"
      "a \<notin> snd ` set (schemas s)"
    by (auto simp: parser_inv_def)
  have other: "\<forall>(n, b) \<in> set (schemas s). b \<noteq> a"
    using a(3) by force
  from assms(2) SName have "dispatch_name c s = Inr s1" by (simp add: dispatch_def)
  from dispatch_name_result [OF this a(1)] show ?thesis
    using SName a other by (auto simp: closing_def)
next
  case SFields
  from assms(1) SFields obtain a where a: "current_schema s = Some a" "a < length (heap s)"
      "a \<notin> snd ` set (schemas s)"
    by (auto simp: parser_inv_def)
  have other: "\<forall>(n, b) \<in> set (schemas s). b \<noteq> a"
    using a(3) by force
  from assms(2) SFields have "dispatch_fields c s = Inr s1" by (simp add: dispatch_def)
  from dispatch_fields_result [OF this a(1)] show ?thesis
    using SFields a other by (auto simp: closing_def heap_add_field_def)
qed

section \<open>The registry during and after a run\<close>

lemma closing_mark_comment: "closing c (mark_comment c s) = closing c s"
  by (simp add: closing_def mark_comment_sel)

lemma closes_iff: "closes c s = (dispatches c s \<and> closing c s)"
  by (simp add: closes_def)

text \<open>
  Claim C7. After a parse run over any file content, whether it ended normally or with an
  exception, every record of the registry satisfies: if its kind is \<^verbatim>\<open>scalar\<close> it has no
  fields, and if its kind is \<^verbatim>\<open>enum\<close> every value is stored with the empty string.
\<close>

theorem registry_records_wellformed:
  assumes "parse_document content = Inr s \<or> parse_document content = Inl (e, s)"
  shows "\<forall>(n, a) \<in> set (schemas s).
           (stype (heap s ! a) = ''scalar'' \<longrightarrow> sfields (heap s ! a) = []) \<and>
           (stype (heap s ! a) = ''enum'' \<longrightarrow> (\<forall>(k, v) \<in> set (sfields (heap s ! a)). v = []))"
proof -
  have inv: "parser_inv s"
    using assms by (rule parse_document_inv)
  { fix n a assume "(n, a) \<in> set (schemas s)"
    then have "a < length (heap s)"
      using inv by (auto simp: parser_inv_def)
    then have "record_ok (heap s ! a)"
      using inv by (simp add: parser_inv_def)
    then have "(stype (heap s ! a) = ''scalar'' \<longrightarrow> sfields (heap s ! a) = []) \<and>
           (stype (heap s ! a) = ''enum'' \<longrightarrow> (\<forall>(k, v) \<in> set (sfields (heap s ! a)). v = []))"
      by (force simp: record_ok_def) }
  then show ?thesis by blast
qed

theorem registry_records_wellformed_witness:
  "\<exists>s. parse_document ''scalar Date\<newline>enum Color { RED GREEN }\<newline>type Query { d: Date }'' = Inr s
     \<and> map (\<lambda>(n, a). (n, stype (heap s ! a), sfields (heap s ! a))) (schemas s)
         = [(''Date'', ''scalar'', []),
            (''Color'', ''enum'', [(''RED'', []), (''GREEN'', [])]),
            (''Query'', ''type'', [(''d'', ''Date'')])]
     \<and> (\<forall>(n, a) \<in> set (schemas s).
           (stype (heap s ! a) = ''scalar'' \<longrightarrow> sfields (heap s ! a) = []) \<and>
           (stype (heap s ! a) = ''enum'' \<longrightarrow> (\<forall>(k, v) \<in> set (sfields (heap s ! a)). v = [])))"
proof -
  have "case parse_document ''scalar Date\<newline>enum Color { RED GREEN }\<newline>type Query { d: Date }'' of
          Inl _ \<Rightarrow> False
        | Inr s \<Rightarrow> map (\<lambda>(n, a). (n, stype (heap s ! a), sfields (heap s ! a))) (schemas s)
         = [(''Date'', ''scalar'', []),
            (''Color'', ''enum'', [(''RED'', []), (''GREEN'', [])]),
            (''Query'', ''type'', [(''d'', ''Date'')])]"
    by code_simp
  then obtain s where run:
      "parse_document ''scalar Date\<newline>enum Color { RED GREEN }\<newline>type Query { d: Date }'' = Inr s"
    and reg: "map (\<lambda>(n, a). (n, stype (heap s ! a), sfields (heap s ! a))) (schemas s)
         = [(''Date'', ''scalar'', []),
            (''Color'', ''enum'', [(''RED'', []), (''GREEN'', [])]),
            (''Query'', ''type'', [(''d'', ''Date'')])]"
    by (auto split: sum.splits)
  note registry_records_wellformed [OF disjI1 [OF run]]
  with run reg show ?thesis
    by (intro exI [of _ s] conjI)
qed

text \<open>
  Claim C6. At every point of a run (after any sequence of characters read without an
  exception): a record being read is not in the registry; a further character leaves the
  objects of the registry as they are; it changes the registry exactly when it closes the
  declaration being read, and then by storing the current record under its name; and a
  character that raises leaves registry and objects as they were.
\<close>

theorem registry_holds_finalized_records:
  assumes "read_characters cs init_parser = Inr s"
  shows "(state s \<noteq> SNone \<longrightarrow> (\<exists>a. current_schema s = Some a \<and> a \<notin> snd ` set (schemas s)))
       \<and> (\<forall>c s'. read_character c s = Inr s' \<longrightarrow>
            (\<forall>(n, a) \<in> set (schemas s). heap s' ! a = heap s ! a) \<and>
            (if closes c s
             then \<exists>a. current_schema s = Some a
                    \<and> schemas s' = AList.update (name (heap s' ! a)) a (schemas s)
                    \<and> schemas s' \<noteq> schemas s
             else schemas s' = schemas s))
       \<and> (\<forall>c e s'. read_character c s = Inl (e, s') \<longrightarrow> schemas s' = schemas s \<and> heap s' = heap s)"
proof (intro conjI allI impI)
  have inv: "parser_inv s"
    using read_characters_inv [OF init_parser_inv] assms by blast
  { assume "state s \<noteq> SNone"
    then show "\<exists>a. current_schema s = Some a \<and> a \<notin> snd ` set (schemas s)"
      using inv by (auto simp: parser_inv_def) }
  { fix c s' assume step: "read_character c s = Inr s'"
    have both: "(\<forall>(n, a) \<in> set (schemas s). heap s' ! a = heap s ! a) \<and>
            (if closes c s
             then \<exists>a. current_schema s = Some a
                    \<and> schemas s' = AList.update (name (heap s' ! a)) a (schemas s)
                    \<and> schemas s' \<noteq> schemas s
             else schemas s' = schemas s)"
    proof (cases "dispatches c s")
      case False
      then have "\<not> closes c s" by (simp add: closes_iff)
      moreover have "heap s' = heap s \<and> schemas s' = schemas s"
        using read_character_scan [OF False] step
        by (auto simp: mark_comment_sel accumulate_sel)
      ultimately show ?thesis by simp
    next
      case True
      from step True obtain s1 where s1: "dispatch c (mark_comment c s) = Inr s1"
          "s' = s1\<lparr>current_token := []\<rparr>"
        by (auto simp: read_character_dispatch split: sum.splits)
      have inv0: "parser_inv (mark_comment c s)"
        using inv by (simp add: parser_inv_scan)
      have eff: "(\<forall>(n, a) \<in> set (schemas s). heap s1 ! a = heap s ! a) \<and>
         (if closing c s
          then \<exists>a. current_schema s = Some a \<and>
                 schemas s1 = AList.update (name (heap s1 ! a)) a (schemas s)
          else schemas s1 = schemas s)"
        using dispatch_effect [OF inv0 s1(1)]
        by (simp add: mark_comment_sel closing_mark_comment cong: if_cong)
      show ?thesis
      proof (cases "closing c s")
        case False
        with eff True s1(2) show ?thesis by (simp add: closes_iff)
      next
        case cl: True
        then have "state s \<noteq> SNone" by (auto simp: closing_def)
        then obtain a where a: "current_schema s = Some a" "a \<notin> snd ` set (schemas s)"
          using inv by (auto simp: parser_inv_def)
        from eff cl a(1) have upd: "schemas s1 = AList.update (name (heap s1 ! a)) a (schemas s)"
          by simp
        then have "schemas s1 \<noteq> schemas s"
          using update_changes [OF a(2)] by simp
        with eff cl True a(1) upd s1(2) show ?thesis by (simp add: closes_iff)
      qed
    qed
    from both show "\<forall>(n, a) \<in> set (schemas s). heap s' ! a = heap s ! a" ..
    from both show "if closes c s
             then \<exists>a. current_schema s = Some a
                    \<and> schemas s' = AList.update (name (heap s' ! a)) a (schemas s)
                    \<and> schemas s' \<noteq> schemas s
             else schemas s' = schemas s" .. }
  { fix c e s' assume step: "read_character c s = Inl (e, s')"
    have "s' = mark_comment c s"
    proof (cases "dispatches c s")
      case True
      with step show ?thesis by (auto simp: read_character_dispatch split: sum.splits)
    next
      case False
      from read_character_scan [OF False] step show ?thesis by auto
    qed
    then show "schemas s' = schemas s" and "heap s' = heap s"
      by (simp_all add: mark_comment_sel) }
qed

theorem registry_holds_finalized_records_witness:
  "\<exists>s s'. read_characters ''scalar Date type A { x: Int '' init_parser = Inr s
     \<and> state s = SFields
     \<and> schemas s = [(''Date'', 0)]
     \<and> (\<exists>a. current_schema s = Some a \<and> a \<notin> snd ` set (schemas s))
     \<and> closes (CHR ''}'') s
     \<and> read_character (CHR ''}'') s = Inr s'
     \<and> heap s' ! 0 = heap s ! 0
     \<and> schemas s' = [(''Date'', 0), (''A'', 1)]
     \<and> schemas s' \<noteq> schemas s"
proof -
  have "case read_characters ''scalar Date type A { x: Int '' init_parser of
          Inl _ \<Rightarrow> False
        | Inr s \<Rightarrow> state s = SFields \<and> schemas s = [(''Date'', 0)] \<and> closes (CHR ''}'') s \<and>
            (case read_character (CHR ''}'') s of
               Inl _ \<Rightarrow> False
             | Inr s' \<Rightarrow> schemas s' = [(''Date'', 0), (''A'', 1)])"
    by code_simp
  then obtain s s' where run: "read_characters ''scalar Date type A { x: Int '' init_parser = Inr s"
    and s: "state s = SFields" "schemas s = [(''Date'', 0)]" "closes (CHR ''}'') s"
    and step: "read_character (CHR ''}'') s = Inr s'"
    and s': "schemas s' = [(''Date'', 0), (''A'', 1)]"
    by (auto split: sum.splits)
  note fin = registry_holds_finalized_records [OF run]
  from fin s(1) have cur: "\<exists>a. current_schema s = Some a \<and> a \<notin> snd ` set (schemas s)"
    by simp
  from fin step have "\<forall>(n, a) \<in> set (schemas s). heap s' ! a = heap s ! a"
    by blast
  with s(2) have same: "heap s' ! 0 = heap s ! 0"
    by simp
  from fin step s(3) have neq: "schemas s' \<noteq> schemas s"
    by (metis (no_types, lifting))
  from run s cur step same s' neq show ?thesis
    by (intro exI [of _ s] exI [of _ s'] conjI)
qed






section \<open>Assembling a document twice\<close>

text \<open>
  A document declaring \<^verbatim>\<open>Query\<close> and \<^verbatim>\<open>Mutation\<close> is parsed into a registry that holds a
  \<^verbatim>\<open>Query\<close> record. The first assembly on it returns the document and leaves the registry
  empty; the second assembly on that same parser raises the lookup error for \<^verbatim>\<open>Query\<close>.
\<close>

theorem second_assembly_fails:
  "parse_document ''type Query { a: Int }\<newline>type Mutation { b: Int }\<newline>''
     = Inr query_mutation_registry
   \<and> map_of (schemas query_mutation_registry) ''Query'' = Some 0
   \<and> parser_to_markdown query_mutation_registry
     = Inr (''# Entrypoint Data Types\<newline>\<newline>'' @
            ''## Query\<newline>\<newline>Datatype class: *Type*\<newline>\<newline>'' @
            ''| Field | Description |\<newline>| --- | --- |\<newline>| **`a`:** `Int` | - |\<newline>\<newline>'' @
            ''## Mutation\<newline>\<newline>Datatype class: *Type*\<newline>\<newline>'' @
            ''| Field | Description |\<newline>| --- | --- |\<newline>| **`b`:** `Int` | - |\<newline>\<newline>'' @
            ''# Custom Data Types'',
            query_mutation_registry\<lparr>schemas := []\<rparr>)
   \<and> parser_to_markdown (query_mutation_registry\<lparr>schemas := []\<rparr>)
     = Inl (KeyError ''Query'', query_mutation_registry\<lparr>schemas := []\<rparr>)"
  by code_simp

text \<open>
  Claim C2. Document assembly removes \<^verbatim>\<open>Query\<close> and \<^verbatim>\<open>Mutation\<close> from the registry it renders.
  Whenever an assembly succeeds, the parser it leaves behind is the one it was invoked on
  with these two names deleted from the registry; this registry holds no \<^verbatim>\<open>Query\<close> record,
  and invoking the assembly again on it fails with the lookup error for \<^verbatim>\<open>Query\<close>.
\<close>

theorem assembly_consumes_registry:
  assumes "parser_to_markdown self = Inr (md, self')"
  shows "self' = self\<lparr>schemas := AList.delete ''Mutation'' (AList.delete ''Query'' (schemas self))\<rparr>
       \<and> map_of (schemas self') ''Query'' = None
       \<and> parser_to_markdown self' = Inl (KeyError ''Query'', self')"
proof -
  from assms have s': "self' = self\<lparr>schemas := AList.delete ''Mutation'' (AList.delete ''Query'' (schemas self))\<rparr>"
    by (auto simp: parser_to_markdown_def Let_def split: option.splits sum.splits)
  have gone: "map_of (schemas self') ''Query'' = None"
    by (simp add: s' delete_conv')
  then have "parser_to_markdown self' = Inl (KeyError ''Query'', self')"
    by (simp add: parser_to_markdown_def)
  with s' gone show ?thesis by blast
qed

theorem assembly_consumes_registry_witness:
  "parser_to_markdown query_mutation_registry
     = Inr (''# Entrypoint Data Types\<newline>\<newline>'' @
            ''## Query\<newline>\<newline>Datatype class: *Type*\<newline>\<newline>'' @
            ''| Field | Description |\<newline>| --- | --- |\<newline>| **`a`:** `Int` | - |\<newline>\<newline>'' @
            ''## Mutation\<newline>\<newline>Datatype class: *Type*\<newline>\<newline>'' @
            ''| Field | Description |\<newline>| --- | --- |\<newline>| **`b`:** `Int` | - |\<newline>\<newline>'' @
            ''# Custom Data Types'',
            query_mutation_registry\<lparr>schemas := []\<rparr>)
   \<and> map_of (schemas (query_mutation_registry\<lparr>schemas := []\<rparr>)) ''Query'' = None
   \<and> parser_to_markdown (query_mutation_registry\<lparr>schemas := []\<rparr>)
     = Inl (KeyError ''Query'', query_mutation_registry\<lparr>schemas := []\<rparr>)"
proof -
  have run: "parser_to_markdown query_mutation_registry
     = Inr (''# Entrypoint Data Types\<newline>\<newline>'' @
            ''## Query\<newline>\<newline>Datatype class: *Type*\<newline>\<newline>'' @
            ''| Field | Description |\<newline>| --- | --- |\<newline>| **`a`:** `Int` | - |\<newline>\<newline>'' @
            ''## Mutation\<newline>\<newline>Datatype class: *Type*\<newline>\<newline>'' @
            ''| Field | Description |\<newline>| --- | --- |\<newline>| **`b`:** `Int` | - |\<newline>\<newline>'' @
            ''# Custom Data Types'',
            query_mutation_registry\<lparr>schemas := []\<rparr>)"
    by code_simp
  note consumed = assembly_consumes_registry [OF run]
  from consumed have gone: "map_of (schemas (query_mutation_registry\<lparr>schemas := []\<rparr>)) ''Query'' = None"
    by (rule conjunct1 [OF conjunct2])
  from consumed have again: "parser_to_markdown (query_mutation_registry\<lparr>schemas := []\<rparr>)
     = Inl (KeyError ''Query'', query_mutation_registry\<lparr>schemas := []\<rparr>)"
    by (rule conjunct2 [OF conjunct2])
  from run gone again show ?thesis
    by (intro conjI)
qed

section \<open>Comments\<close>

subsection \<open>The characters fed to the parser\<close>












subsection \<open>Line comments\<close>





subsection \<open>Block comments\<close>










end
